theory Spec2Isabelle
  imports
    Complex_Main
    "HOL-Library.Sublist"
    "HOL-Library.Multiset"
    "HOL-Library.Char_ord"
    "HOL-Library.List_Lexorder"
begin

section \<open>Strings\<close>

text \<open>
  A JavaScript string is a sequence of UTF-16 code units. The strings that are searched and
  cut are modelled as lists of code units, each an integer (from 0 to 65535 in JavaScript), so that \<open>length\<close> counts
  what \<open>String.prototype.length\<close> counts and every character of a transcript can be
  written. \<open>str\<close> gives the code units of a literal of Basic Latin.
\<close>

type_synonym jsString = "int list"

definition str :: "string \<Rightarrow> jsString" where
  "str s = map of_char s"

definition dots :: jsString where
  "dots = str ''...''"

text \<open>
  \<open>String.prototype.toLowerCase\<close> is the lowercasing of the Unicode standard, a function of
  the platform whose tables are no part of the repository. Every definition that calls it
  takes it as the parameter \<open>lower\<close>, and the general theorems hold for every function in
  its place. Nothing is assumed of it: in particular the lowercase form of a string may be
  longer than the string, as it is in JavaScript for U+0130 (capital I with dot above),
  which becomes the two code units U+0069 U+0307.

  \<open>basicLower\<close> is the lowercasing used on concrete inputs. It is what \<open>toLowerCase\<close>
  does to a string whose code units are below 256 or are U+0130: the letters A to Z and the
  capital letters of Latin-1 (192 to 222, without the multiplication sign 215) move up by 32,
  U+0130 becomes two code units, everything else stays.
\<close>

definition lowerUnit :: "int \<Rightarrow> jsString" where
  "lowerUnit n =
     (if (65 \<le> n \<and> n \<le> 90) \<or> (192 \<le> n \<and> n \<le> 222 \<and> n \<noteq> 215) then [n + 32]
      else if n = 304 then [105, 775]
      else [n])"

definition basicLower :: "jsString \<Rightarrow> jsString" where
  "basicLower s = concat (map lowerUnit s)"

text \<open>
  White space and line terminators of ECMAScript, which \<open>trim\<close> removes at both ends: tab,
  line feed, vertical tab, form feed, carriage return, space, no-break space, the space
  separators U+1680, U+2000 to U+200A, U+202F, U+205F and U+3000, the line and paragraph
  separators U+2028 and U+2029, and U+FEFF.
\<close>

definition isWhiteSpace :: "int \<Rightarrow> bool" where
  "isWhiteSpace c =
     (c \<in> {9, 10, 11, 12, 13, 32, 160, 5760, 8232, 8233, 8239, 8287, 12288, 65279}
      \<or> (8192 \<le> c \<and> c \<le> 8202))"

definition trim :: "jsString \<Rightarrow> jsString" where
  "trim s = rev (dropWhile isWhiteSpace (rev (dropWhile isWhiteSpace s)))"

text \<open>
  \<open>s.split(' ')\<close>: cut at every single space (code unit 32); adjacent, leading and trailing
  spaces give empty pieces, and the empty string gives one empty piece. The result is never
  empty, so the first branch of the inner case distinction is never taken.
\<close>

fun split :: "jsString \<Rightarrow> jsString list" where
  "split [] = [Nil]"
| "split (c # cs) =
     (if c = 32 then Nil # split cs
      else (case split cs of [] \<Rightarrow> [c # Nil] | w # ws \<Rightarrow> (c # w) # ws))"

text \<open>\<open>s.indexOf(t)\<close>: the least position at which \<open>t\<close> starts in \<open>s\<close>; \<open>None\<close> is \<open>-1\<close>.\<close>

fun indexOf :: "jsString \<Rightarrow> jsString \<Rightarrow> nat option" where
  "indexOf [] t = (if t = [] then Some 0 else None)"
| "indexOf (c # cs) t =
     (if prefix t (c # cs) then Some 0 else map_option Suc (indexOf cs t))"

definition str_includes :: "jsString \<Rightarrow> jsString \<Rightarrow> bool" where
  "str_includes s t = (indexOf s t \<noteq> None)"

text \<open>
  \<open>s.substring(a, b)\<close> for non-negative arguments: both are clamped to the length, and
  swapped when the first exceeds the second.
\<close>

definition substring :: "jsString \<Rightarrow> nat \<Rightarrow> nat \<Rightarrow> jsString" where
  "substring s a b =
     (let a' = min a (length s); b' = min b (length s)
      in take (max a' b' - min a' b') (drop (min a' b') s))"

section \<open>Data model (types/lecture.ts)\<close>

text \<open>
  The fields \<open>start\<close>, \<open>end\<close>, \<open>text\<close> of a segment and \<open>context\<close> of a search result
  are written \<open>seg_start\<close>, \<open>seg_end\<close>, \<open>seg_text\<close> and \<open>contextText\<close>.
\<close>

record TextSegment =
  seg_start :: jsString
  seg_end :: jsString
  seg_text :: jsString

record Transcription =
  full_text :: jsString
  segments :: "TextSegment list"

text \<open>
  \<open>score\<close> is a JavaScript number obtained as the quotient of two small non-negative
  integers. It is modelled as the exact rational quotient: for numerators and denominators
  bounded by the length of a string, the comparisons the code and the claims make on these
  quotients (with each other, with 0, 1 and 3) have the same outcome on the rounded doubles.
\<close>

record SearchResult =
  segment :: TextSegment
  score :: rat
  contextText :: jsString

section \<open>SearchTab.tsx: getContext\<close>

text \<open>
  \<open>Math.max(0, queryIndex - 50)\<close> is computed on integers. The variable \<open>context\<close> of the
  source is assigned up to three times; \<open>c0\<close>, \<open>c1\<close> and \<open>c2\<close> are its successive values.
\<close>

definition getContext :: "(jsString \<Rightarrow> jsString) \<Rightarrow> jsString \<Rightarrow> jsString \<Rightarrow> jsString" where
  "getContext lower txt query =
     (case indexOf (lower txt) (lower query) of
        None \<Rightarrow> substring txt 0 100 @ dots
      | Some queryIndex \<Rightarrow>
          (let start = nat (max 0 (int queryIndex - 50));
               stop = min (length txt) (queryIndex + length query + 50);
               c0 = substring txt start stop;
               c1 = (if start > 0 then dots @ c0 else c0);
               c2 = (if stop < length txt then c1 @ dots else c1)
           in c2))"

section \<open>SearchTab.tsx: performSearch\<close>

text \<open>
  The inner \<open>searchTerms.forEach\<close>, with \<open>relevanceScore\<close> as its accumulator: a term found
  in the segment adds 1, and, inside the same branch, 2 more when the whole lowercased query
  is found in the segment.
\<close>

definition searchTerms :: "(jsString \<Rightarrow> jsString) \<Rightarrow> jsString \<Rightarrow> jsString list" where
  "searchTerms lower searchQuery = split (lower searchQuery)"

definition relevanceScore :: "(jsString \<Rightarrow> jsString) \<Rightarrow> jsString \<Rightarrow> jsString list \<Rightarrow> jsString \<Rightarrow> nat" where
  "relevanceScore lower searchQuery terms segmentText =
     foldl (\<lambda>acc trm.
              if str_includes segmentText trm
              then (if str_includes segmentText (lower searchQuery) then acc + 1 + 2 else acc + 1)
              else acc)
       0 terms"

definition segmentScore :: "(jsString \<Rightarrow> jsString) \<Rightarrow> jsString \<Rightarrow> TextSegment \<Rightarrow> rat" where
  "segmentScore lower searchQuery seg =
     of_nat (relevanceScore lower searchQuery (searchTerms lower searchQuery) (lower (seg_text seg)))
       / of_nat (length (searchTerms lower searchQuery))"

text \<open>The body of \<open>transcription.segments.forEach\<close>: what one segment pushes.\<close>

definition pushSegment :: "(jsString \<Rightarrow> jsString) \<Rightarrow> jsString \<Rightarrow> TextSegment \<Rightarrow> SearchResult list" where
  "pushSegment lower searchQuery seg =
     (if relevanceScore lower searchQuery (searchTerms lower searchQuery) (lower (seg_text seg)) > 0
      then [\<lparr>segment = seg, score = segmentScore lower searchQuery seg,
             contextText = getContext lower (seg_text seg) searchQuery\<rparr>]
      else [])"

definition searchResults :: "(jsString \<Rightarrow> jsString) \<Rightarrow> jsString \<Rightarrow> Transcription \<Rightarrow> SearchResult list" where
  "searchResults lower searchQuery transcription =
     concat (map (pushSegment lower searchQuery) (segments transcription))"

text \<open>
  \<open>a.localeCompare(b)\<close> compares by the collation of the host's locale, which the
  repository does not fix. It is taken as a parameter \<open>collate\<close>, the collation key of a
  string in some linear order: the comparison is that of the keys.
\<close>

definition localeCompare :: "(jsString \<Rightarrow> 'k::linorder) \<Rightarrow> jsString \<Rightarrow> jsString \<Rightarrow> int" where
  "localeCompare collate a b =
     (if collate a < collate b then - 1 else if collate a = collate b then 0 else 1)"

text \<open>
  The collation used wherever a concrete one is needed: code units compared
  lexicographically. Timecodes of one format (\<open>HH:MM:SS\<close>) are ordered chronologically by it.
\<close>

definition codeUnitKey :: "jsString \<Rightarrow> int list" where
  "codeUnitKey s = s"

datatype SortBy = Relevance | Time

text \<open>The comparator handed to \<open>searchResults.sort\<close>.\<close>

definition compareResults ::
  "(jsString \<Rightarrow> 'k::linorder) \<Rightarrow> SortBy \<Rightarrow> SearchResult \<Rightarrow> SearchResult \<Rightarrow> rat" where
  "compareResults collate sortBy a b =
     (case sortBy of
        Relevance \<Rightarrow> score b - score a
      | Time \<Rightarrow> of_int (localeCompare collate (seg_start (segment a)) (seg_start (segment b))))"

text \<open>
  \<open>Array.prototype.sort\<close> with a comparator is a stable sort (ECMAScript 2019): an element
  goes before another when the comparator is negative, after it when positive, and the two
  keep their order when it is zero. Insertion from the right realises exactly this.
\<close>

fun insertSorted :: "('a \<Rightarrow> 'a \<Rightarrow> rat) \<Rightarrow> 'a \<Rightarrow> 'a list \<Rightarrow> 'a list" where
  "insertSorted cmp x [] = [x]"
| "insertSorted cmp x (y # ys) =
     (if cmp x y \<le> 0 then x # y # ys else y # insertSorted cmp x ys)"

definition arraySort :: "('a \<Rightarrow> 'a \<Rightarrow> rat) \<Rightarrow> 'a list \<Rightarrow> 'a list" where
  "arraySort cmp xs = foldr (insertSorted cmp) xs []"

text \<open>The component state that \<open>performSearch\<close> writes.\<close>

record SearchTabState =
  results :: "SearchResult list"
  isSearching :: bool
  searchHistory :: "jsString list"

definition initialState :: SearchTabState where
  "initialState = \<lparr>results = [], isSearching = False, searchHistory = []\<rparr>"

text \<open>
  \<open>performSearch\<close> has two parts. The synchronous part returns at once for a blank query,
  and otherwise sets \<open>isSearching\<close> and hands a callback to \<open>setTimeout\<close>. The callback is a
  closure: it reads \<open>sortBy\<close> and \<open>searchHistory\<close> as they were in the render that created
  it, whereas the updater \<open>prev => [searchQuery, ...prev.slice(0, 4)]\<close> receives the state
  current when the callback runs. \<open>Pending\<close> is the scheduled callback with what it captured.
\<close>

datatype pending = Pending SortBy "jsString list" jsString

definition performSearch ::
  "SortBy \<Rightarrow> jsString \<Rightarrow> SearchTabState \<Rightarrow> SearchTabState \<times> pending option" where
  "performSearch sortBy searchQuery st =
     (if trim searchQuery = []
      then (st\<lparr>results := []\<rparr>, None)
      else (st\<lparr>isSearching := True\<rparr>, Some (Pending sortBy (searchHistory st) searchQuery)))"

definition searchTimeout ::
  "(jsString \<Rightarrow> jsString) \<Rightarrow> (jsString \<Rightarrow> 'k::linorder) \<Rightarrow> Transcription \<Rightarrow> pending \<Rightarrow> SearchTabState \<Rightarrow> SearchTabState" where
  "searchTimeout lower collate transcription p st =
     (case p of Pending sortBy capturedHistory searchQuery \<Rightarrow>
        (let sortedResults =
               arraySort (compareResults collate sortBy) (searchResults lower searchQuery transcription)
         in st\<lparr>results := take 10 sortedResults,
               isSearching := False,
               searchHistory :=
                 (if searchQuery \<notin> set capturedHistory
                  then searchQuery # take 4 (searchHistory st)
                  else searchHistory st)\<rparr>))"

text \<open>One search carried through: the call, and its callback run before anything else happens.\<close>

definition search ::
  "(jsString \<Rightarrow> jsString) \<Rightarrow> (jsString \<Rightarrow> 'k::linorder) \<Rightarrow> SortBy \<Rightarrow> Transcription \<Rightarrow> jsString \<Rightarrow> SearchTabState
     \<Rightarrow> SearchTabState" where
  "search lower collate sortBy transcription searchQuery st =
     (case performSearch sortBy searchQuery st of
        (st', None) \<Rightarrow> st'
      | (st', Some p) \<Rightarrow> searchTimeout lower collate transcription p st')"

text \<open>
  The component over time. \<open>Call\<close> is an invocation of \<open>performSearch\<close> (from
  \<open>handleSearch\<close> or from the effect on \<open>sortBy\<close>); \<open>Fire\<close> is the oldest scheduled callback
  running. All callbacks have the same delay, so they run in the order they were scheduled.
\<close>

datatype event = Call SortBy jsString | Fire

fun step ::
  "(jsString \<Rightarrow> jsString) \<Rightarrow> (jsString \<Rightarrow> 'k::linorder) \<Rightarrow> Transcription \<Rightarrow> SearchTabState \<times> pending list \<Rightarrow> event
     \<Rightarrow> SearchTabState \<times> pending list" where
  "step lower collate transcription (st, timers) (Call sortBy searchQuery) =
     (case performSearch sortBy searchQuery st of
        (st', None) \<Rightarrow> (st', timers)
      | (st', Some p) \<Rightarrow> (st', timers @ [p]))"
| "step lower collate transcription (st, []) Fire = (st, [])"
| "step lower collate transcription (st, p # timers) Fire =
     (searchTimeout lower collate transcription p st, timers)"

definition run ::
  "(jsString \<Rightarrow> jsString) \<Rightarrow> (jsString \<Rightarrow> 'k::linorder) \<Rightarrow> Transcription \<Rightarrow> event list \<Rightarrow> SearchTabState \<times> pending list" where
  "run lower collate transcription evs = foldl (step lower collate transcription) (initialState, []) evs"

text \<open>A run in which no two searches overlap: every call is followed by its callback.\<close>

definition sequential :: "(SortBy \<times> jsString) list \<Rightarrow> event list" where
  "sequential qs = concat (map (\<lambda>(sortBy, searchQuery). [Call sortBy searchQuery, Fire]) qs)"

section \<open>ConceptMapTab.tsx: layout and edges\<close>

text \<open>
  Identifiers, labels and type names of the concept map are only compared for equality;
  they are values of \<^typ>\<open>string\<close>.
\<close>

record ConceptNode =
  node_id :: string
  node_label :: string
  node_type :: string
  node_size :: real

record ConceptEdge =
  edge_from :: string
  edge_to :: string
  edge_label :: string
  strength :: real

record ConceptMap =
  nodes :: "ConceptNode list"
  edges :: "ConceptEdge list"

record position =
  pos_x :: real
  pos_y :: real

text \<open>
  The body shared by the two \<open>forEach\<close> calls of \<open>calculateLayout\<close>: the node at \<open>index\<close>
  of \<open>n\<close> is put on a circle around (400, 300). Coordinates are idealised reals; no claim
  depends on their values.
\<close>

definition placeOnCircle ::
  "real \<Rightarrow> nat \<Rightarrow> (string \<rightharpoonup> position) \<Rightarrow> nat \<times> ConceptNode \<Rightarrow> (string \<rightharpoonup> position)" where
  "placeOnCircle r n nodePositions p =
     (case p of (index, node) \<Rightarrow>
        (let angle = (real index / real n) * 2 * pi
         in nodePositions(node_id node \<mapsto>
              \<lparr>pos_x = 400 + cos angle * r, pos_y = 300 + sin angle * r\<rparr>)))"

definition calculateLayout :: "ConceptMap \<Rightarrow> (string \<rightharpoonup> position)" where
  "calculateLayout conceptMap =
     (let radius = 200;
          m0 = (case find (\<lambda>node. node_type node = ''root'') (nodes conceptMap) of
                  None \<Rightarrow> Map.empty
                | Some rootNode \<Rightarrow> [node_id rootNode \<mapsto> \<lparr>pos_x = 400, pos_y = 300\<rparr>]);
          mainNodes = filter (\<lambda>node. node_type node = ''main'') (nodes conceptMap);
          m1 = foldl (placeOnCircle radius (length mainNodes)) m0 (enumerate 0 mainNodes);
          otherNodes =
            filter (\<lambda>node. node_type node \<notin> {''root'', ''main''}) (nodes conceptMap);
          m2 = foldl (placeOnCircle (radius + 100) (length otherNodes)) m1 (enumerate 0 otherNodes)
      in m2)"

text \<open>
  What the edge callback returns: \<open>None\<close> is \<open>null\<close> (nothing is drawn), \<open>Some\<close> is the
  group drawn for the edge: the \<open>line\<close> between the two positions with its stroke, and the
  label when labels are shown and the edge has one. The arrow head is drawn from the same
  target position and colour and adds no field.
\<close>

record EdgeElement =
  line_x1 :: real
  line_y1 :: real
  line_x2 :: real
  line_y2 :: real
  strokeOpacity :: real
  strokeWidth :: real
  opacity :: real
  labelText :: "string option"

text \<open>
  Reading \<open>.x\<close> or \<open>.y\<close> of what \<open>Map.get\<close> returned throws a \<open>TypeError\<close> when the key was
  absent (\<open>undefined\<close>); the failure is a value of the model.
\<close>

datatype js_error = TypeError

definition prop_x :: "position option \<Rightarrow> js_error + real" where
  "prop_x p = (case p of None \<Rightarrow> Inl TypeError | Some q \<Rightarrow> Inr (pos_x q))"

definition prop_y :: "position option \<Rightarrow> js_error + real" where
  "prop_y p = (case p of None \<Rightarrow> Inl TypeError | Some q \<Rightarrow> Inr (pos_y q))"

definition renderEdge ::
  "ConceptMap \<Rightarrow> (string \<rightharpoonup> position) \<Rightarrow> string set \<Rightarrow> bool \<Rightarrow> ConceptEdge
     \<Rightarrow> js_error + EdgeElement option" where
  "renderEdge conceptMap nodePositions highlightedNodes showLabels edge =
     (let fromNode = find (\<lambda>n. node_id n = edge_from edge) (nodes conceptMap);
          toNode = find (\<lambda>n. node_id n = edge_to edge) (nodes conceptMap)
      in if fromNode = None \<or> toNode = None then Inr None
         else
           (let fromPos = nodePositions (edge_from edge);
                toPos = nodePositions (edge_to edge)
            in if fromPos = None \<or> toPos = None then Inr None
               else
                 (let isHighlighted =
                        (edge_from edge \<in> highlightedNodes \<or> edge_to edge \<in> highlightedNodes)
                  in case (prop_x fromPos, prop_y fromPos, prop_x toPos, prop_y toPos) of
                       (Inr fx, Inr fy, Inr tx, Inr ty) \<Rightarrow>
                         Inr (Some
                           \<lparr>line_x1 = fx, line_y1 = fy, line_x2 = tx, line_y2 = ty,
                            strokeOpacity = max 0.3 (strength edge),
                            strokeWidth = (if isHighlighted then 3 else max 1 (strength edge * 3)),
                            opacity = (if isHighlighted then 1 else 0.6),
                            labelText =
                              (if showLabels \<and> edge_label edge \<noteq> [] then Some (edge_label edge)
                               else None)\<rparr>)
                     | _ \<Rightarrow> Inl TypeError)))"

text \<open>\<open>conceptMap.edges.map(...)\<close>: a callback that throws ends the whole rendering.\<close>

fun mapE :: "('a \<Rightarrow> 'e + 'b) \<Rightarrow> 'a list \<Rightarrow> 'e + 'b list" where
  "mapE f [] = Inr []"
| "mapE f (x # xs) =
     (case f x of
        Inl e \<Rightarrow> Inl e
      | Inr y \<Rightarrow> (case mapE f xs of Inl e \<Rightarrow> Inl e | Inr ys \<Rightarrow> Inr (y # ys)))"

definition renderEdges ::
  "ConceptMap \<Rightarrow> string set \<Rightarrow> bool \<Rightarrow> js_error + EdgeElement option list" where
  "renderEdges conceptMap highlightedNodes showLabels =
     mapE (renderEdge conceptMap (calculateLayout conceptMap) highlightedNodes showLabels)
       (edges conceptMap)"

section \<open>Concrete inputs\<close>

text \<open>The single-segment transcript of the specification's scenario.\<close>

definition scenarioSegment :: TextSegment where
  "scenarioSegment =
     \<lparr>seg_start = (str ''00:00:00''), seg_end = (str ''00:00:05''),
      seg_text = (str ''machine learning is a subset of artificial intelligence'')\<rparr>"

definition scenarioTranscript :: Transcription where
  "scenarioTranscript =
     \<lparr>full_text = (str ''machine learning is a subset of artificial intelligence''),
      segments = [scenarioSegment]\<rparr>"

text \<open>A transcript in which one segment has a term of the query but not the whole query.\<close>

definition partialTranscript :: Transcription where
  "partialTranscript =
     \<lparr>full_text = (str ''deep learning''),
      segments = [\<lparr>seg_start = (str ''00:00:00''), seg_end = (str ''00:00:04''), seg_text = (str ''deep learning'')\<rparr>]\<rparr>"

text \<open>A transcript of three segments in ascending start time, two of which tie.\<close>

definition chronoTranscript :: Transcription where
  "chronoTranscript =
     \<lparr>full_text = (str ''neural networks deep learning neural networks learn''),
      segments =
        [\<lparr>seg_start = (str ''00:00:00''), seg_end = (str ''00:00:05''), seg_text = (str ''neural networks'')\<rparr>,
         \<lparr>seg_start = (str ''00:00:05''), seg_end = (str ''00:00:10''), seg_text = (str ''deep learning'')\<rparr>,
         \<lparr>seg_start = (str ''00:00:10''), seg_end = (str ''00:00:15''), seg_text = (str ''neural networks learn'')\<rparr>]\<rparr>"

text \<open>
  Eleven segments in ascending start time that all match the query \<open>gradient descent\<close>: the
  first ten have one of its two terms, the last one has the whole query.
\<close>

definition elevenTranscript :: Transcription where
  "elevenTranscript =
     \<lparr>full_text = (str ''gradient gradient gradient gradient gradient gradient gradient gradient gradient gradient gradient descent''),
      segments =
        [\<lparr>seg_start = (str ''00:00:00''), seg_end = (str ''00:00:05''), seg_text = (str ''gradient'')\<rparr>,
         \<lparr>seg_start = (str ''00:00:05''), seg_end = (str ''00:00:10''), seg_text = (str ''gradient'')\<rparr>,
         \<lparr>seg_start = (str ''00:00:10''), seg_end = (str ''00:00:15''), seg_text = (str ''gradient'')\<rparr>,
         \<lparr>seg_start = (str ''00:00:15''), seg_end = (str ''00:00:20''), seg_text = (str ''gradient'')\<rparr>,
         \<lparr>seg_start = (str ''00:00:20''), seg_end = (str ''00:00:25''), seg_text = (str ''gradient'')\<rparr>,
         \<lparr>seg_start = (str ''00:00:25''), seg_end = (str ''00:00:30''), seg_text = (str ''gradient'')\<rparr>,
         \<lparr>seg_start = (str ''00:00:30''), seg_end = (str ''00:00:35''), seg_text = (str ''gradient'')\<rparr>,
         \<lparr>seg_start = (str ''00:00:35''), seg_end = (str ''00:00:40''), seg_text = (str ''gradient'')\<rparr>,
         \<lparr>seg_start = (str ''00:00:40''), seg_end = (str ''00:00:45''), seg_text = (str ''gradient'')\<rparr>,
         \<lparr>seg_start = (str ''00:00:45''), seg_end = (str ''00:00:50''), seg_text = (str ''gradient'')\<rparr>,
         \<lparr>seg_start = (str ''00:00:50''), seg_end = (str ''00:00:55''), seg_text = (str ''gradient descent'')\<rparr>]\<rparr>"

text \<open>A segment text of 153 characters in which the query occurs in the middle.\<close>

definition longText :: jsString where
  "longText = (str ''In this lecture we will first review linear algebra and then we introduce Gradient Descent as the basic optimisation method for training neural networks.'')"

text \<open>A transcript with no segments.\<close>

definition emptyTranscript :: Transcription where
  "emptyTranscript = \<lparr>full_text = (str ''''), segments = []\<rparr>"

text \<open>
  A concept map with a root and a main node, an edge between them, and an edge whose target
  is not a node of the map.
\<close>

definition danglingMap :: ConceptMap where
  "danglingMap =
     \<lparr>nodes =
        [\<lparr>node_id = ''ai'', node_label = ''Artificial intelligence'', node_type = ''root'', node_size = 40\<rparr>,
         \<lparr>node_id = ''ml'', node_label = ''Machine learning'', node_type = ''main'', node_size = 30\<rparr>],
      edges =
        [\<lparr>edge_from = ''ai'', edge_to = ''ml'', edge_label = ''includes'', strength = 0.9\<rparr>,
         \<lparr>edge_from = ''ai'', edge_to = ''dl'', edge_label = ''includes'', strength = 0.8\<rparr>]\<rparr>"

section \<open>The scoring rule in the specification's words\<close>

text \<open>
  The count of query terms present in the segment, plus a single bonus of 2 when the
  lowercased query is a substring of the lowercased segment text, divided by the number of
  terms. \<^const>\<open>sublist\<close> is the relation "occurs as a contiguous piece of".
\<close>

definition specScore :: "(jsString \<Rightarrow> jsString) \<Rightarrow> jsString \<Rightarrow> TextSegment \<Rightarrow> rat" where
  "specScore lower searchQuery seg =
     (let segmentText = lower (seg_text seg);
          present = length (filter (\<lambda>trm. sublist trm segmentText) (searchTerms lower searchQuery));
          bonus = (if sublist (lower searchQuery) segmentText then 2 else 0)
      in of_nat (present + bonus) / of_nat (length (searchTerms lower searchQuery)))"

section \<open>The context window in the specification's words\<close>

text \<open>
  \<open>t\<close> occurs in \<open>s\<close> at position \<open>i\<close>, and at no earlier position.
\<close>

definition firstOccurrence :: "jsString \<Rightarrow> jsString \<Rightarrow> nat \<Rightarrow> bool" where
  "firstOccurrence t s i \<longleftrightarrow>
     i + length t \<le> length s \<and> take (length t) (drop i s) = t \<and>
     (\<forall>j<i. take (length t) (drop j s) \<noteq> t)"

text \<open>
  The window around an occurrence of length \<open>n\<close> at position \<open>i\<close>: from 50 characters
  before it (or from the beginning of the text) to 50 characters after its end (or to the end
  of the text), with an ellipsis in front exactly when the window starts after the
  beginning, and one behind exactly when it ends before the end.
\<close>

definition specWindow :: "jsString \<Rightarrow> nat \<Rightarrow> nat \<Rightarrow> jsString" where
  "specWindow txt i n =
     (let a = i - 50; b = min (length txt) (i + n + 50)
      in (if 0 < a then dots else []) @ take (b - a) (drop a txt)
           @ (if b < length txt then dots else []))"

section \<open>Facts about the string functions\<close>

lemma split_not_Nil: "split s \<noteq> []"
  by (induction s) (auto split: list.splits)

lemma indexOf_None_iff: "indexOf s t = None \<longleftrightarrow> \<not> sublist t s"
  by (induction s) (auto simp: sublist_Cons_right)

lemma str_includes_iff: "str_includes s t \<longleftrightarrow> sublist t s"
  by (simp add: str_includes_def indexOf_None_iff)

lemma indexOf_Some_iff:
  "indexOf s t = Some i \<longleftrightarrow>
     i \<le> length s \<and> prefix t (drop i s) \<and> (\<forall>j<i. \<not> prefix t (drop j s))"
proof (induction s arbitrary: i)
  case Nil
  then show ?case by auto
next
  case (Cons c cs)
  show ?case
  proof (cases "prefix t (c # cs)")
    case True
    then show ?thesis by auto
  next
    case False
    show ?thesis
    proof (cases i)
      case 0
      with False show ?thesis by auto
    next
      case (Suc k)
      have "(\<forall>j<Suc k. \<not> prefix t (drop j (c # cs))) \<longleftrightarrow> (\<forall>j<k. \<not> prefix t (drop j cs))"
        using False by (auto simp: less_Suc_eq_0_disj)
      with False Suc Cons.IH [of k] show ?thesis by auto
    qed
  qed
qed

lemma split_hd_prefix: "split s = v # vs \<Longrightarrow> prefix v s"
  by (induction s arbitrary: v vs) (auto split: if_splits list.splits)

lemma split_sublist: "w \<in> set (split s) \<Longrightarrow> sublist w s"
proof (induction s arbitrary: w)
  case Nil
  then show ?case by simp
next
  case (Cons c cs)
  show ?case
  proof (cases "c = 32")
    case True
    with Cons show ?thesis by (auto simp: sublist_Cons_right)
  next
    case False
    obtain v vs where sp: "split cs = v # vs"
      using split_not_Nil [of cs] by (cases "split cs") auto
    from Cons.prems False sp have "w = c # v \<or> w \<in> set vs" by auto
    then show ?thesis
    proof
      assume w: "w = c # v"
      from sp have "prefix v cs" by (rule split_hd_prefix)
      with w have "prefix w (c # cs)" by simp
      then show ?thesis by (rule prefix_imp_sublist)
    next
      assume "w \<in> set vs"
      with sp Cons.IH show ?thesis by (auto simp: sublist_Cons_right)
    qed
  qed
qed

section \<open>Facts about the scoring\<close>

lemma foldl_score_add:
  "foldl (\<lambda>acc trm. if P trm then (if B then acc + 1 + 2 else acc + 1) else acc) (a::nat) ts
     = a + foldl (\<lambda>acc trm. if P trm then (if B then acc + 1 + 2 else acc + 1) else acc) 0 ts"
proof (induction ts arbitrary: a)
  case Nil
  then show ?case by simp
next
  case (Cons t ts)
  show ?case
    using Cons.IH [of "if P t then (if B then a + 1 + 2 else a + 1) else a"]
          Cons.IH [of "if P t then (if B then 0 + 1 + 2 else 0 + 1) else 0"]
    by (auto simp del: One_nat_def)
qed

lemma relevanceScore_count:
  "relevanceScore lower q ts seg =
     (let m = length (filter (str_includes seg) ts)
      in m + (if str_includes seg (lower q) then 2 * m else 0))"
proof (induction ts)
  case Nil
  then show ?case by (simp add: relevanceScore_def)
next
  case (Cons t ts)
  then show ?case
    unfolding relevanceScore_def Let_def
    by (subst foldl_Cons, subst foldl_score_add) (auto simp: Let_def)
qed

lemma relevanceScore_le: "relevanceScore lower q ts seg \<le> 3 * length ts"
proof -
  have "length (filter (str_includes seg) ts) \<le> length ts" by simp
  then have "3 * length (filter (str_includes seg) ts) \<le> 3 * length ts"
    and "length (filter (str_includes seg) ts) \<le> 3 * length ts" by linarith+
  then show ?thesis by (simp add: relevanceScore_count Let_def)
qed

lemma phrase_all_terms:
  assumes "str_includes seg (lower q)"
  shows "filter (str_includes seg) (searchTerms lower q) = searchTerms lower q"
proof -
  have "str_includes seg w" if "w \<in> set (searchTerms lower q)" for w
  proof -
    from that have "sublist w (lower q)"
      unfolding searchTerms_def by (rule split_sublist)
    moreover from assms have "sublist (lower q) seg" by (simp add: str_includes_iff)
    ultimately have "sublist w seg" by (rule sublist_order.order_trans)
    then show ?thesis by (simp add: str_includes_iff)
  qed
  then show ?thesis by (simp add: filter_id_conv)
qed

lemma searchTerms_length_pos: "0 < length (searchTerms lower q)"
  by (simp add: searchTerms_def split_not_Nil)

lemma segmentScore_phrase:
  assumes "str_includes (lower (seg_text seg)) (lower q)"
  shows "segmentScore lower q seg = 3"
proof -
  have "relevanceScore lower q (searchTerms lower q) (lower (seg_text seg)) = 3 * length (searchTerms lower q)"
    using assms by (simp add: relevanceScore_count phrase_all_terms Let_def)
  then show ?thesis
    using searchTerms_length_pos [of lower q] by (simp add: segmentScore_def)
qed

lemma segmentScore_no_phrase:
  assumes "\<not> str_includes (lower (seg_text seg)) (lower q)"
  shows "segmentScore lower q seg \<le> 1"
proof -
  have "relevanceScore lower q (searchTerms lower q) (lower (seg_text seg)) \<le> length (searchTerms lower q)"
    using assms by (simp add: relevanceScore_count Let_def)
  then show ?thesis
    using searchTerms_length_pos [of lower q]
    by (simp add: segmentScore_def divide_le_eq_1)
qed

lemma segmentScore_pos_iff:
  "0 < segmentScore lower q seg \<longleftrightarrow>
     0 < relevanceScore lower q (searchTerms lower q) (lower (seg_text seg))"
  using searchTerms_length_pos [of lower q] by (simp add: segmentScore_def zero_less_divide_iff)

section \<open>Facts about the sort and the search\<close>

lemma insertSorted_insort_key:
  assumes "\<And>x y. cmp x y \<le> 0 \<longleftrightarrow> f x \<le> f y"
  shows "insertSorted cmp x ys = insort_key f x ys"
  by (induction ys) (simp_all add: assms)

lemma arraySort_sort_key:
  assumes "\<And>x y. cmp x y \<le> 0 \<longleftrightarrow> f x \<le> f y"
  shows "arraySort cmp xs = sort_key f xs"
  unfolding arraySort_def sort_key_def
  by (induction xs) (simp_all add: insertSorted_insort_key [OF assms])

lemma arraySort_Relevance:
  "arraySort (compareResults collate Relevance) xs = sort_key (\<lambda>r. - score r) xs"
  by (rule arraySort_sort_key) (simp add: compareResults_def)

lemma arraySort_Time:
  "arraySort (compareResults collate Time) xs = sort_key (\<lambda>r. collate (seg_start (segment r))) xs"
  by (rule arraySort_sort_key) (auto simp: compareResults_def localeCompare_def)

lemma mset_arraySort: "mset (arraySort (compareResults collate sortBy) xs) = mset xs"
  by (cases sortBy) (simp_all add: arraySort_Relevance arraySort_Time)

lemma results_search_blank:
  "trim q = [] \<Longrightarrow> results (search lower collate sortBy T q st) = []"
  by (simp add: search_def performSearch_def)

lemma results_search:
  "trim q \<noteq> [] \<Longrightarrow>
     results (search lower collate sortBy T q st) =
       take 10 (arraySort (compareResults collate sortBy) (searchResults lower q T))"
  by (simp add: search_def performSearch_def searchTimeout_def Let_def)

lemma results_search_subset:
  "set (results (search lower collate sortBy T q st)) \<subseteq> set (searchResults lower q T)"
proof (cases "trim q = []")
  case True
  then show ?thesis by (simp add: results_search_blank)
next
  case False
  have "set (take 10 (arraySort (compareResults collate sortBy) (searchResults lower q T)))
          \<subseteq> set (arraySort (compareResults collate sortBy) (searchResults lower q T))"
    by (rule set_take_subset)
  also have "\<dots> = set (searchResults lower q T)"
    using mset_arraySort [of collate sortBy "searchResults lower q T"] by (metis set_mset_mset)
  finally show ?thesis using False by (simp add: results_search)
qed

lemma in_searchResults:
  "r \<in> set (searchResults lower q T) \<longleftrightarrow>
     (\<exists>seg \<in> set (segments T).
        0 < relevanceScore lower q (searchTerms lower q) (lower (seg_text seg)) \<and>
        r = \<lparr>segment = seg, score = segmentScore lower q seg,
             contextText = getContext lower (seg_text seg) q\<rparr>)"
  by (auto simp: searchResults_def pushSegment_def split: if_splits)

lemma searchResults_filter:
  "map segment (searchResults lower q T) =
     filter (\<lambda>seg. 0 < relevanceScore lower q (searchTerms lower q) (lower (seg_text seg))) (segments T)"
proof -
  have "map segment (concat (map (pushSegment lower q) xs)) =
          filter (\<lambda>seg. 0 < relevanceScore lower q (searchTerms lower q) (lower (seg_text seg))) xs"
    for xs
    by (induction xs) (simp_all add: pushSegment_def)
  then show ?thesis by (simp add: searchResults_def)
qed

section \<open>C1: the scenario of the specification\<close>

lemma scenario_searchResults:
  "searchResults basicLower (str ''machine learning'') scenarioTranscript =
     [\<lparr>segment = scenarioSegment, score = 3,
       contextText = (str ''machine learning is a subset of artificial intelligence'')\<rparr>]"
  by code_simp

lemma arraySort_single: "arraySort cmp [x] = [x]"
  by (simp add: arraySort_def)

lemma scenario_trim: "trim (str ''machine learning'') \<noteq> []"
  by code_simp

text \<open>
  C1, as amended. For the single-segment transcript of the scenario and the query
  \<open>machine learning\<close>, a search returns exactly one result, in either sort mode and from any
  state; its context is the whole segment text, with no ellipsis, and its score is 3: both
  terms are found, each adds 1 and, the whole query being found too, 2 more, which makes 6,
  divided by the 2 terms.
\<close>

theorem C1_scenario:
  "results (search basicLower collate sortBy scenarioTranscript (str ''machine learning'') st) =
     [\<lparr>segment = scenarioSegment, score = 3,
       contextText = seg_text scenarioSegment\<rparr>]"
  by (simp add: results_search scenario_trim scenario_searchResults arraySort_single
        scenarioSegment_def)

text \<open>C1 as stated asks for the score 1; the score of the only result is not 1.\<close>

theorem C1_score_counterexample:
  "map score (results (search basicLower codeUnitKey Relevance scenarioTranscript (str ''machine learning'')
     initialState)) \<noteq> [1]"
  by (simp add: results_search scenario_trim scenario_searchResults arraySort_single)

section \<open>C2: the scoring rule\<close>

lemma scenario_results:
  "results (search basicLower collate sortBy scenarioTranscript (str ''machine learning'') st) =
     [\<lparr>segment = scenarioSegment, score = 3,
       contextText = (str ''machine learning is a subset of artificial intelligence'')\<rparr>]"
  by (simp add: results_search scenario_trim scenario_searchResults arraySort_single)

lemma str_includes_eq: "str_includes s = (\<lambda>t. sublist t s)"
  by (simp add: fun_eq_iff str_includes_iff)

lemma scenario_specScore: "specScore basicLower (str ''machine learning'') scenarioSegment = 2"
  unfolding specScore_def str_includes_iff [symmetric] by code_simp

text \<open>
  C2 as stated: on the scenario's segment the rule of the specification gives
  (2 + 2) / 2 = 2, and the search gives 3.
\<close>

theorem C2_single_bonus_counterexample:
  "map score (results (search basicLower codeUnitKey Relevance scenarioTranscript (str ''machine learning'')
      initialState))
   \<noteq> map (specScore basicLower (str ''machine learning''))
       (map segment (results (search basicLower codeUnitKey Relevance scenarioTranscript (str ''machine learning'')
          initialState)))"
  by (simp add: scenario_results scenario_specScore)

text \<open>
  C2, as amended. The score of every result of a search is: the number of query terms
  (counted with repetition) that occur in the lowercased segment text, plus, when the
  lowercased query occurs in it, 2 for each of these terms, the sum divided by the number of
  terms of the query.
\<close>

theorem C2_score_formula:
  assumes "r \<in> set (results (search lower collate sortBy T q st))"
  shows "score r =
           (let segmentText = lower (seg_text (segment r));
                present = length (filter (\<lambda>trm. sublist trm segmentText) (searchTerms lower q));
                bonus = (if sublist (lower q) segmentText then 2 * present else 0)
            in of_nat (present + bonus) / of_nat (length (searchTerms lower q)))"
proof -
  from assms have "r \<in> set (searchResults lower q T)"
    using results_search_subset by blast
  then obtain seg where "r = \<lparr>segment = seg, score = segmentScore lower q seg,
      contextText = getContext lower (seg_text seg) q\<rparr>"
    unfolding in_searchResults by blast
  then have "score r = segmentScore lower q (segment r)" by simp
  then show ?thesis
    by (simp add: segmentScore_def relevanceScore_count Let_def str_includes_eq)
qed

theorem C2_score_formula_witness:
  "\<lparr>segment = scenarioSegment, score = 3,
     contextText = (str ''machine learning is a subset of artificial intelligence'')\<rparr>
     \<in> set (results (search basicLower codeUnitKey Relevance scenarioTranscript (str ''machine learning'') initialState))
   \<and> (3 :: rat) =
       (let segmentText = basicLower (seg_text scenarioSegment);
            present = length (filter (\<lambda>trm. sublist trm segmentText)
                        (searchTerms basicLower (str ''machine learning'')));
            bonus = (if sublist (basicLower (str ''machine learning'')) segmentText then 2 * present else 0)
        in of_nat (present + bonus) / of_nat (length (searchTerms basicLower (str ''machine learning''))))"
proof -
  let ?r = "\<lparr>segment = scenarioSegment, score = 3,
     contextText = (str ''machine learning is a subset of artificial intelligence'')\<rparr>"
  have mem: "?r \<in> set (results (search basicLower codeUnitKey Relevance scenarioTranscript
      (str ''machine learning'') initialState))"
    by (simp add: scenario_results)
  from C2_score_formula [OF mem] mem show ?thesis by simp
qed

section \<open>C3: the range of the scores\<close>

lemma partial_searchResults:
  "searchResults basicLower (str ''machine learning'') partialTranscript =
     [\<lparr>segment = \<lparr>seg_start = (str ''00:00:00''), seg_end = (str ''00:00:04''), seg_text = (str ''deep learning'')\<rparr>,
       score = 1 / 2, contextText = (str ''deep learning...'')\<rparr>]"
  by code_simp

lemma partial_results:
  "results (search basicLower collate sortBy partialTranscript (str ''machine learning'') st) =
     [\<lparr>segment = \<lparr>seg_start = (str ''00:00:00''), seg_end = (str ''00:00:04''), seg_text = (str ''deep learning'')\<rparr>,
       score = 1 / 2, contextText = (str ''deep learning...'')\<rparr>]"
  by (simp add: results_search scenario_trim partial_searchResults arraySort_single)

text \<open>C3 as stated: the only result of the scenario has a score above 1.\<close>

theorem C3_above_one_counterexample:
  "length (results (search basicLower codeUnitKey Relevance scenarioTranscript (str ''machine learning'')
      initialState)) = 1
   \<and> \<not> score (hd (results (search basicLower codeUnitKey Relevance scenarioTranscript (str ''machine learning'')
      initialState))) \<le> 1"
  by (simp add: scenario_results)

text \<open>
  C3, as amended. Every result of a search has a score strictly greater than 0 and at most
  3. The score is exactly 3 when the lowercased query occurs in the lowercased segment text
  (every term then occurs too, and each brings 1 + 2), and at most 1 otherwise. Segments of
  relevance zero are not among the results.
\<close>

theorem C3_score_range:
  assumes "r \<in> set (results (search lower collate sortBy T q st))"
  shows "0 < score r \<and> score r \<le> 3
         \<and> (if sublist (lower q) (lower (seg_text (segment r)))
            then score r = 3 else score r \<le> 1)"
proof -
  from assms have "r \<in> set (searchResults lower q T)"
    using results_search_subset by blast
  then obtain seg where pos: "0 < relevanceScore lower q (searchTerms lower q) (lower (seg_text seg))"
    and r: "r = \<lparr>segment = seg, score = segmentScore lower q seg,
      contextText = getContext lower (seg_text seg) q\<rparr>"
    unfolding in_searchResults by blast
  from r have sc: "score r = segmentScore lower q (segment r)" and sg: "segment r = seg" by simp_all
  from pos have "0 < score r" by (simp add: sc sg segmentScore_pos_iff)
  moreover have "score r = 3" if "sublist (lower q) (lower (seg_text (segment r)))"
    using that by (simp add: sc segmentScore_phrase str_includes_iff)
  moreover have "score r \<le> 1" if "\<not> sublist (lower q) (lower (seg_text (segment r)))"
    using that by (simp add: sc segmentScore_no_phrase str_includes_iff)
  ultimately show ?thesis
    by (cases "sublist (lower q) (lower (seg_text (segment r)))") auto
qed

theorem C3_score_range_witness:
  "\<lparr>segment = scenarioSegment, score = 3,
     contextText = (str ''machine learning is a subset of artificial intelligence'')\<rparr>
     \<in> set (results (search basicLower codeUnitKey Relevance scenarioTranscript (str ''machine learning'') initialState))
   \<and> sublist (basicLower (str ''machine learning'')) (basicLower (seg_text scenarioSegment))
   \<and> \<lparr>segment = \<lparr>seg_start = (str ''00:00:00''), seg_end = (str ''00:00:04''), seg_text = (str ''deep learning'')\<rparr>,
       score = 1 / 2, contextText = (str ''deep learning...'')\<rparr>
     \<in> set (results (search basicLower codeUnitKey Relevance partialTranscript (str ''machine learning'') initialState))
   \<and> \<not> sublist (basicLower (str ''machine learning'')) (basicLower (str ''deep learning''))
   \<and> (0 :: rat) < 1 / 2 \<and> (1 / 2 :: rat) \<le> 1"
proof -
  let ?r = "\<lparr>segment = scenarioSegment, score = 3,
     contextText = (str ''machine learning is a subset of artificial intelligence'')\<rparr>"
  let ?p = "\<lparr>segment = \<lparr>seg_start = (str ''00:00:00''), seg_end = (str ''00:00:04''), seg_text = (str ''deep learning'')\<rparr>,
       score = 1 / 2, contextText = (str ''deep learning...'')\<rparr>"
  have m1: "?r \<in> set (results (search basicLower codeUnitKey Relevance scenarioTranscript
      (str ''machine learning'') initialState))"
    by (simp add: scenario_results)
  have m2: "?p \<in> set (results (search basicLower codeUnitKey Relevance partialTranscript
      (str ''machine learning'') initialState))"
    by (simp add: partial_results)
  have s1: "sublist (basicLower (str ''machine learning'')) (basicLower (seg_text scenarioSegment))"
    unfolding str_includes_iff [symmetric] by code_simp
  have s2: "\<not> sublist (basicLower (str ''machine learning'')) (basicLower (str ''deep learning''))"
    unfolding str_includes_iff [symmetric] by code_simp
  from C3_score_range [OF m1] C3_score_range [OF m2] m1 m2 s1 s2 show ?thesis by simp
qed

section \<open>C4: the order of the results in relevance mode\<close>

lemma insort_key_lex:
  fixes f :: "'a \<Rightarrow> 'b::linorder" and g :: "'a \<Rightarrow> 'c::linorder"
  assumes "sorted_wrt (\<lambda>a b. f a < f b \<or> (f a = f b \<and> g a \<le> g b)) ys"
    and "\<forall>y \<in> set ys. g x \<le> g y"
  shows "sorted_wrt (\<lambda>a b. f a < f b \<or> (f a = f b \<and> g a \<le> g b)) (insort_key f x ys)"
  using assms
proof (induction ys)
  case Nil
  then show ?case by simp
next
  case (Cons y ys)
  show ?case
  proof (cases "f x \<le> f y")
    case True
    have "f x < f z \<or> (f x = f z \<and> g x \<le> g z)" if "z \<in> set (y # ys)" for z
    proof -
      have "f y \<le> f z" using Cons.prems(1) that by auto
      with True have "f x \<le> f z" by simp
      moreover have "g x \<le> g z" using Cons.prems(2) that by auto
      ultimately show ?thesis by auto
    qed
    with True Cons.prems(1) show ?thesis by simp
  next
    case False
    then have "f y < f x" by simp
    moreover have "sorted_wrt (\<lambda>a b. f a < f b \<or> (f a = f b \<and> g a \<le> g b)) (insort_key f x ys)"
      using Cons by simp
    ultimately show ?thesis using False Cons.prems(1) by (auto simp: set_insort_key)
  qed
qed

lemma sort_key_lex:
  fixes f :: "'a \<Rightarrow> 'b::linorder" and g :: "'a \<Rightarrow> 'c::linorder"
  assumes "sorted (map g xs)"
  shows "sorted_wrt (\<lambda>a b. f a < f b \<or> (f a = f b \<and> g a \<le> g b)) (sort_key f xs)"
  using assms
proof (induction xs)
  case Nil
  then show ?case by simp
next
  case (Cons x xs)
  then have "sorted_wrt (\<lambda>a b. f a < f b \<or> (f a = f b \<and> g a \<le> g b)) (sort_key f xs)"
    and "\<forall>y \<in> set (sort_key f xs). g x \<le> g y"
    by auto
  then show ?case by (simp add: insort_key_lex)
qed

lemma searchResults_chronological:
  assumes "sorted (map (\<lambda>s. collate (seg_start s)) (segments T))"
  shows "sorted (map (\<lambda>r. collate (seg_start (segment r))) (searchResults lower q T))"
proof -
  have "map (\<lambda>r. collate (seg_start (segment r))) (searchResults lower q T) =
          map (\<lambda>s. collate (seg_start s)) (map segment (searchResults lower q T))"
    by simp
  also have "\<dots> = map (\<lambda>s. collate (seg_start s))
      (filter (\<lambda>seg. 0 < relevanceScore lower q (searchTerms lower q) (lower (seg_text seg))) (segments T))"
    by (simp only: searchResults_filter)
  finally show ?thesis using assms by (simp add: sorted_filter)
qed

lemma results_prefix:
  "prefix (results (search lower collate sortBy T q st))
     (arraySort (compareResults collate sortBy) (searchResults lower q T))"
  by (cases "trim q = []") (simp_all add: results_search_blank results_search take_is_prefix)

text \<open>
  What holds on every transcript, chronological or not: at most 10 results, scores that
  never increase, and results of equal score in the order in which their segments stand in
  the transcript (those of any one score are an initial part of the matches of that score
  in transcript order). The comparator looks at the scores only; the sort is stable.
\<close>

lemma relevance_order_stable:
  fixes collate :: "jsString \<Rightarrow> 'k::linorder"
  shows "length (results (search lower collate Relevance T q st)) \<le> 10
    \<and> sorted_wrt (\<lambda>a b. score b \<le> score a) (results (search lower collate Relevance T q st))
    \<and> prefix (filter (\<lambda>r. score r = k) (results (search lower collate Relevance T q st)))
         (filter (\<lambda>r. score r = k) (searchResults lower q T))"
proof -
  let ?rs = "results (search lower collate Relevance T q st)"
  let ?sorted = "sort_key (\<lambda>r. - score r) (searchResults lower q T)"
  have pre: "prefix ?rs ?sorted"
    using results_prefix [of lower collate Relevance T q st] by (simp add: arraySort_Relevance)
  have len: "length ?rs \<le> 10"
    by (cases "trim q = []") (simp_all add: results_search_blank results_search)
  have "sorted (map (\<lambda>r. - score r) ?sorted)" by (rule sorted_sort_key)
  then have "sorted_wrt (\<lambda>a b. score b \<le> score a) ?sorted" by (simp add: sorted_map)
  with pre have desc: "sorted_wrt (\<lambda>a b. score b \<le> score a) ?rs"
    by (auto simp: prefix_def sorted_wrt_append)
  have "filter (\<lambda>r. - score r = - k) ?sorted = filter (\<lambda>r. - score r = - k) (searchResults lower q T)"
    by (rule sort_key_stable)
  then have "filter (\<lambda>r. score r = k) ?sorted = filter (\<lambda>r. score r = k) (searchResults lower q T)"
    by simp
  with filter_mono_prefix [OF pre, of "\<lambda>r. score r = k"]
  have stable: "prefix (filter (\<lambda>r. score r = k) ?rs) (filter (\<lambda>r. score r = k) (searchResults lower q T))"
    by simp
  from len desc stable show ?thesis by blast
qed

lemma relevance_order_lex:
  fixes collate :: "jsString \<Rightarrow> 'k::linorder"
  assumes chrono: "sorted (map (\<lambda>s. collate (seg_start s)) (segments T))"
  shows "sorted_wrt (\<lambda>a b. score b < score a \<or>
                      (score a = score b \<and>
                       collate (seg_start (segment a)) \<le> collate (seg_start (segment b))))
           (results (search lower collate Relevance T q st))"
proof -
  let ?rs = "results (search lower collate Relevance T q st)"
  let ?sorted = "sort_key (\<lambda>r. - score r) (searchResults lower q T)"
  have pre: "prefix ?rs ?sorted"
    using results_prefix [of lower collate Relevance T q st] by (simp add: arraySort_Relevance)
  from chrono have "sorted (map (\<lambda>r. collate (seg_start (segment r))) (searchResults lower q T))"
    by (rule searchResults_chronological)
  then have "sorted_wrt (\<lambda>a b. - score a < - score b \<or>
      (- score a = - score b \<and>
       collate (seg_start (segment a)) \<le> collate (seg_start (segment b)))) ?sorted"
    by (rule sort_key_lex)
  then have "sorted_wrt (\<lambda>a b. score b < score a \<or>
      (score a = score b \<and>
       collate (seg_start (segment a)) \<le> collate (seg_start (segment b)))) ?sorted"
    by simp
  with pre show ?thesis by (auto simp: prefix_def sorted_wrt_append)
qed

text \<open>
  C4. The transcript lists its segments in ascending start time (chronological order is
  part of the data model, and the transcript reaches the search already validated). Then,
  for every query, the result sequence of a search in relevance mode has length at most 10
  and is ordered by descending score with ties broken by ascending segment start time: of
  any two results, the earlier one has the strictly greater score, or the same score and a
  start time that is not later.
\<close>

theorem C4_relevance_order:
  fixes collate :: "jsString \<Rightarrow> 'k::linorder"
  assumes "sorted (map (\<lambda>s. collate (seg_start s)) (segments T))"
  shows "length (results (search lower collate Relevance T q st)) \<le> 10
    \<and> sorted_wrt (\<lambda>a b. score b < score a \<or>
                      (score a = score b \<and>
                       collate (seg_start (segment a)) \<le> collate (seg_start (segment b))))
         (results (search lower collate Relevance T q st))"
  using relevance_order_stable [of lower collate T q st] relevance_order_lex [OF assms, of lower q st]
  by blast

theorem C4_relevance_order_witness:
  "sorted (map (\<lambda>s. codeUnitKey (seg_start s)) (segments chronoTranscript))
   \<and> map (\<lambda>r. (score r, seg_start (segment r)))
       (results (search basicLower codeUnitKey Relevance chronoTranscript (str ''neural learn'') initialState))
     = [(1, (str ''00:00:10'')), (1 / 2, (str ''00:00:00'')), (1 / 2, (str ''00:00:05''))]
   \<and> length (results (search basicLower codeUnitKey Relevance chronoTranscript (str ''neural learn'') initialState))
       \<le> 10
   \<and> sorted_wrt (\<lambda>a b. score b < score a \<or>
                   (score a = score b \<and>
                    codeUnitKey (seg_start (segment a)) \<le> codeUnitKey (seg_start (segment b))))
        (results (search basicLower codeUnitKey Relevance chronoTranscript (str ''neural learn'') initialState))"
proof -
  have chrono: "sorted (map (\<lambda>s. codeUnitKey (seg_start s)) (segments chronoTranscript))"
    by code_simp
  have rs: "map (\<lambda>r. (score r, seg_start (segment r)))
       (results (search basicLower codeUnitKey Relevance chronoTranscript (str ''neural learn'') initialState))
     = [(1, (str ''00:00:10'')), (1 / 2, (str ''00:00:00'')), (1 / 2, (str ''00:00:05''))]"
    by code_simp
  from C4_relevance_order [OF chrono, of basicLower "str ''neural learn''" initialState] chrono rs
  show ?thesis by blast
qed

section \<open>C5: sorting by time\<close>

lemma eleven_time:
  "map (seg_start \<circ> segment)
     (results (search basicLower codeUnitKey Time elevenTranscript (str ''gradient descent'') initialState))
   = [(str ''00:00:00''), (str ''00:00:05''), (str ''00:00:10''), (str ''00:00:15''), (str ''00:00:20''),
      (str ''00:00:25''), (str ''00:00:30''), (str ''00:00:35''), (str ''00:00:40''), (str ''00:00:45'')]"
  by code_simp

lemma eleven_relevance:
  "map (seg_start \<circ> segment)
     (results (search basicLower codeUnitKey Relevance elevenTranscript (str ''gradient descent'') initialState))
   = [(str ''00:00:50''), (str ''00:00:00''), (str ''00:00:05''), (str ''00:00:10''), (str ''00:00:15''),
      (str ''00:00:20''), (str ''00:00:25''), (str ''00:00:30''), (str ''00:00:35''), (str ''00:00:40'')]"
  by code_simp

text \<open>
  C5 as stated: eleven segments match. Sorted by time, the ten results are the first ten
  segments; sorted by relevance, they are the last segment, whose score is 3, and the first
  nine. The cut to ten results comes after the sort, so the two sets differ.
\<close>

theorem C5_cut_counterexample:
  "set (results (search basicLower codeUnitKey Time elevenTranscript (str ''gradient descent'') initialState))
   \<noteq> set (results (search basicLower codeUnitKey Relevance elevenTranscript (str ''gradient descent'')
         initialState))"
proof
  assume "set (results (search basicLower codeUnitKey Time elevenTranscript (str ''gradient descent'') initialState))
    = set (results (search basicLower codeUnitKey Relevance elevenTranscript (str ''gradient descent'')
         initialState))"
  then have "set (map (seg_start \<circ> segment)
        (results (search basicLower codeUnitKey Time elevenTranscript (str ''gradient descent'') initialState)))
    = set (map (seg_start \<circ> segment)
        (results (search basicLower codeUnitKey Relevance elevenTranscript (str ''gradient descent'')
           initialState)))"
    by (simp only: set_map)
  moreover have "(str ''00:00:50'') \<in> set (map (seg_start \<circ> segment)
        (results (search basicLower codeUnitKey Relevance elevenTranscript (str ''gradient descent'')
           initialState)))"
    unfolding eleven_relevance by simp
  ultimately have "(str ''00:00:50'') \<in> set (map (seg_start \<circ> segment)
        (results (search basicLower codeUnitKey Time elevenTranscript (str ''gradient descent'') initialState)))"
    by simp
  then show False
    unfolding eleven_time by (simp add: str_def)
qed

text \<open>
  C5, as amended. When at most 10 segments match the query, a search sorted by time returns
  the same results (the same segments with the same scores and contexts, as a multiset) as
  a search sorted by relevance, in ascending order of segment start. When more than 10
  match, each mode keeps the first 10 of its own order.
\<close>

theorem C5_time_mode:
  fixes collate :: "jsString \<Rightarrow> 'k::linorder"
  assumes "length (filter (\<lambda>seg. 0 < segmentScore lower q seg) (segments T)) \<le> 10"
  shows "mset (results (search lower collate Time T q st))
           = mset (results (search lower collate Relevance T q st))
         \<and> sorted (map (\<lambda>r. collate (seg_start (segment r)))
              (results (search lower collate Time T q st)))"
proof (cases "trim q = []")
  case True
  then show ?thesis by (simp add: results_search_blank)
next
  case False
  have "length (searchResults lower q T) = length (map segment (searchResults lower q T))" by simp
  also have "\<dots> = length (filter (\<lambda>seg. 0 < segmentScore lower q seg) (segments T))"
    by (simp only: searchResults_filter segmentScore_pos_iff)
  finally have le: "length (searchResults lower q T) \<le> 10" using assms by simp
  have lenT: "length (sort_key (\<lambda>r. collate (seg_start (segment r))) (searchResults lower q T)) \<le> 10"
    and lenR: "length (sort_key (\<lambda>r. - score r) (searchResults lower q T)) \<le> 10"
    using le by simp_all
  have rt: "results (search lower collate Time T q st) =
      sort_key (\<lambda>r. collate (seg_start (segment r))) (searchResults lower q T)"
    using False lenT by (simp add: results_search arraySort_Time)
  have rr: "results (search lower collate Relevance T q st) =
      sort_key (\<lambda>r. - score r) (searchResults lower q T)"
    using False lenR by (simp add: results_search arraySort_Relevance)
  show ?thesis unfolding rt rr by simp
qed

theorem C5_time_mode_witness:
  "length (filter (\<lambda>seg. 0 < segmentScore basicLower (str ''neural learn'') seg) (segments chronoTranscript)) \<le> 10
   \<and> map (seg_start \<circ> segment)
       (results (search basicLower codeUnitKey Relevance chronoTranscript (str ''neural learn'') initialState))
     = [(str ''00:00:10''), (str ''00:00:00''), (str ''00:00:05'')]
   \<and> map (seg_start \<circ> segment)
       (results (search basicLower codeUnitKey Time chronoTranscript (str ''neural learn'') initialState))
     = [(str ''00:00:00''), (str ''00:00:05''), (str ''00:00:10'')]
   \<and> mset (results (search basicLower codeUnitKey Time chronoTranscript (str ''neural learn'') initialState))
     = mset (results (search basicLower codeUnitKey Relevance chronoTranscript (str ''neural learn'') initialState))"
proof -
  have h: "length (filter (\<lambda>seg. 0 < segmentScore basicLower (str ''neural learn'') seg)
      (segments chronoTranscript)) \<le> 10"
    by (simp add: chronoTranscript_def)
  have r: "map (seg_start \<circ> segment)
       (results (search basicLower codeUnitKey Relevance chronoTranscript (str ''neural learn'') initialState))
     = [(str ''00:00:10''), (str ''00:00:00''), (str ''00:00:05'')]"
    by code_simp
  have t: "map (seg_start \<circ> segment)
       (results (search basicLower codeUnitKey Time chronoTranscript (str ''neural learn'') initialState))
     = [(str ''00:00:00''), (str ''00:00:05''), (str ''00:00:10'')]"
    by code_simp
  from C5_time_mode [OF h, of codeUnitKey initialState] h r t show ?thesis by blast
qed

section \<open>C6: blank queries\<close>

lemma all_dropWhile_iff: "(\<forall>x \<in> set (dropWhile P xs). P x) \<longleftrightarrow> (\<forall>x \<in> set xs. P x)"
proof
  assume a: "\<forall>x \<in> set (dropWhile P xs). P x"
  have "dropWhile P xs = []"
  proof (rule ccontr)
    assume ne: "dropWhile P xs \<noteq> []"
    then have "\<not> P (hd (dropWhile P xs))" by (rule hd_dropWhile)
    moreover from ne have "hd (dropWhile P xs) \<in> set (dropWhile P xs)" by simp
    ultimately show False using a by blast
  qed
  then show "\<forall>x \<in> set xs. P x" by (simp add: dropWhile_eq_Nil_conv)
next
  assume "\<forall>x \<in> set xs. P x"
  then show "\<forall>x \<in> set (dropWhile P xs). P x" by (auto dest: set_dropWhileD)
qed

lemma trim_empty_iff: "trim q = [] \<longleftrightarrow> (\<forall>c \<in> set q. isWhiteSpace c)"
  by (simp add: trim_def dropWhile_eq_Nil_conv all_dropWhile_iff)

text \<open>
  C6. A search with a query that is empty or consists of white space only ends in the
  synchronous part of \<open>performSearch\<close>: no callback is scheduled, the result sequence becomes
  empty and nothing else of the state changes. The model has no failure branch here
  because the code has none: the only operations are \<open>trim\<close> and \<open>setResults\<close>.
\<close>

theorem C6_blank_query:
  assumes "\<forall>c \<in> set q. isWhiteSpace c"
  shows "performSearch sortBy q st = (st\<lparr>results := []\<rparr>, None)
         \<and> search lower collate sortBy T q st = st\<lparr>results := []\<rparr>
         \<and> results (search lower collate sortBy T q st) = []"
  using assms by (simp add: search_def performSearch_def trim_empty_iff)

theorem C6_blank_query_witness:
  "list_all isWhiteSpace (str '''')
   \<and> list_all isWhiteSpace (str ''   '')
   \<and> results (search basicLower codeUnitKey Relevance scenarioTranscript (str '''') initialState) = []
   \<and> results (search basicLower codeUnitKey Time scenarioTranscript (str ''   '')
        (search basicLower codeUnitKey Relevance scenarioTranscript (str ''machine learning'') initialState)) = []"
proof -
  have e: "\<forall>c \<in> set (str ''''). isWhiteSpace c" by (simp add: str_def)
  have w: "\<forall>c \<in> set (str ''   ''). isWhiteSpace c" by (simp add: isWhiteSpace_def str_def)
  from C6_blank_query [OF e, of Relevance initialState basicLower codeUnitKey scenarioTranscript]
    C6_blank_query [OF w, of Time "search basicLower codeUnitKey Relevance scenarioTranscript
      (str ''machine learning'') initialState" basicLower codeUnitKey scenarioTranscript]
    e w
  show ?thesis by (simp add: list_all_iff)
qed

section \<open>C7: the context of a result\<close>

lemma prefix_take_iff: "prefix t u \<longleftrightarrow> take (length t) u = t"
proof
  assume "prefix t u"
  then show "take (length t) u = t" by (auto simp: prefix_def)
next
  assume "take (length t) u = t"
  then have "u = t @ drop (length t) u" by (metis append_take_drop_id)
  then show "prefix t u" by (metis prefixI)
qed

lemma indexOf_firstOccurrence: "indexOf s t = Some i \<longleftrightarrow> firstOccurrence t s i"
proof -
  have "i + length t \<le> length s" if "take (length t) (drop i s) = t" and "i \<le> length s"
  proof -
    from that(1) have "length (take (length t) (drop i s)) = length t" by simp
    then have "length t \<le> length s - i" by (simp add: min_def split: if_splits)
    with that(2) show ?thesis by linarith
  qed
  moreover have "i \<le> length s" if "i + length t \<le> length s"
    using that by linarith
  ultimately show ?thesis
    unfolding indexOf_Some_iff firstOccurrence_def prefix_take_iff by blast
qed

lemma substring_take_drop:
  "a \<le> b \<Longrightarrow> b \<le> length s \<Longrightarrow> substring s a b = take (b - a) (drop a s)"
  by (simp add: substring_def Let_def min_def max_def)

lemma substring_0: "substring s 0 n = take n s"
  by (simp add: substring_def Let_def min_def)

lemma getContext_found:
  assumes idx: "indexOf (lower txt) (lower query) = Some i"
    and lt: "length (lower txt) = length txt"
    and lq: "length (lower query) = length query"
  shows "getContext lower txt query = specWindow txt i (length query)"
proof -
  from idx have "firstOccurrence (lower query) (lower txt) i"
    by (simp add: indexOf_firstOccurrence)
  then have "i + length (lower query) \<le> length (lower txt)"
    by (simp add: firstOccurrence_def)
  then have le: "i + length query \<le> length txt"
    by (simp only: lt lq)
  define a where "a = i - 50"
  define b where "b = min (length txt) (i + length query + 50)"
  have "a \<le> b" and "b \<le> length txt"
    using le unfolding a_def b_def by linarith+
  then have sub: "substring txt a b = take (b - a) (drop a txt)"
    by (rule substring_take_drop)
  have start: "nat (max 0 (int i - 50)) = a" by (simp add: a_def)
  have "getContext lower txt query =
      (if b < length txt
       then (if a > 0 then dots @ substring txt a b else substring txt a b) @ dots
       else (if a > 0 then dots @ substring txt a b else substring txt a b))"
    by (simp only: getContext_def idx option.case Let_def start b_def [symmetric])
  also have "\<dots> = specWindow txt i (length query)"
    unfolding sub specWindow_def Let_def a_def [symmetric] b_def [symmetric] by simp
  finally show ?thesis .
qed

lemma getContext_not_found:
  assumes "indexOf (lower txt) (lower query) = None"
  shows "getContext lower txt query = take 100 txt @ dots"
  using assms by (simp add: getContext_def substring_0)

text \<open>
  Why the lengths matter: the position is found in the lowercased text and used in the
  original text. A text of 60 times U+0130 followed by \<open> needle\<close> has 67 code units, its
  lowercase form has 127, and \<open>needle\<close> is found at position 121: the window is cut from
  position 71 of the original, beyond its end, and the context is three dots and nothing
  of the text.
\<close>

lemma getContext_lengthened:
  "getContext basicLower (replicate 60 304 @ str '' needle'') (str ''needle'') = dots"
  by code_simp

text \<open>
  C7 as stated: \<open>longText\<close> has 153 characters and contains \<open>gradient\<close> but not
  \<open>gradient boosting\<close>. The context for the query \<open>gradient boosting\<close> is not the first 100
  characters of the text: three dots follow them, marking the cut.
\<close>

theorem C7_fallback_counterexample:
  "getContext basicLower longText (str ''gradient boosting'') \<noteq> take 100 longText"
  by code_simp

text \<open>
  C7, as amended. When lowercasing changes the length of neither the text nor the query, and
  the lowercased query occurs in the lowercased text, first at position \<open>i\<close>, the context
  is the window of the original text from 50 characters before \<open>i\<close> to 50 characters after
  the end of the occurrence, with a leading ellipsis exactly when the window starts after
  the beginning of the text and a trailing ellipsis exactly when it ends before its end.
  When the lowercased query does not occur in the lowercased text, the context begins with
  the first 100 characters of the text, and for a text of more than 100 characters it is
  these 100 characters followed by an ellipsis.
\<close>

theorem C7_context:
  "(length (lower txt) = length txt \<and> length (lower query) = length query
      \<and> firstOccurrence (lower query) (lower txt) i \<longrightarrow>
      getContext lower txt query = specWindow txt i (length query))
   \<and> (\<not> sublist (lower query) (lower txt) \<longrightarrow>
      prefix (take 100 txt) (getContext lower txt query)
      \<and> (100 < length txt \<longrightarrow> getContext lower txt query = take 100 txt @ dots))"
proof (intro conjI impI)
  assume "length (lower txt) = length txt \<and> length (lower query) = length query
      \<and> firstOccurrence (lower query) (lower txt) i"
  then show "getContext lower txt query = specWindow txt i (length query)"
    by (simp add: getContext_found indexOf_firstOccurrence [symmetric])
next
  assume "\<not> sublist (lower query) (lower txt)"
  then have "getContext lower txt query = take 100 txt @ dots"
    by (simp add: getContext_not_found indexOf_None_iff)
  then show "prefix (take 100 txt) (getContext lower txt query)" by simp
next
  assume "\<not> sublist (lower query) (lower txt)"
  then show "getContext lower txt query = take 100 txt @ dots"
    by (simp add: getContext_not_found indexOf_None_iff)
qed

theorem C7_context_witness:
  "length (basicLower longText) = length longText
   \<and> length (basicLower (str ''gradient descent'')) = length (str ''gradient descent'')
   \<and> firstOccurrence (basicLower (str ''gradient descent'')) (basicLower longText) 74
   \<and> getContext basicLower longText (str ''gradient descent'') =
       str ''...first review linear algebra and then we introduce Gradient Descent as the basic optimisation method for training neu...''
   \<and> \<not> sublist (basicLower (str ''gradient boosting'')) (basicLower longText)
   \<and> 100 < length longText
   \<and> getContext basicLower longText (str ''gradient boosting'') =
       str ''In this lecture we will first review linear algebra and then we introduce Gradient Descent as the ba...''"
proof -
  have l1: "length (basicLower longText) = length longText"
    by code_simp
  have l2: "length (basicLower (str ''gradient descent'')) = length (str ''gradient descent'')"
    by code_simp
  have "indexOf (basicLower longText) (basicLower (str ''gradient descent'')) = Some 74"
    by code_simp
  then have f1: "firstOccurrence (basicLower (str ''gradient descent'')) (basicLower longText) 74"
    by (simp only: indexOf_firstOccurrence)
  have w1: "specWindow longText 74 (length (str ''gradient descent'')) =
      str ''...first review linear algebra and then we introduce Gradient Descent as the basic optimisation method for training neu...''"
    by code_simp
  have n: "\<not> sublist (basicLower (str ''gradient boosting'')) (basicLower longText)"
    unfolding str_includes_iff [symmetric] by code_simp
  have g: "100 < length longText" by code_simp
  have t: "take 100 longText @ dots =
      str ''In this lecture we will first review linear algebra and then we introduce Gradient Descent as the ba...''"
    by code_simp
  from C7_context [of basicLower longText "str ''gradient descent''" 74]
    C7_context [of basicLower longText "str ''gradient boosting''" 0]
    l1 l2 f1 n g w1 t
  show ?thesis by simp
qed

section \<open>C8: the query history\<close>

text \<open>What one search carried through does to the history.\<close>

lemma searchHistory_search:
  "searchHistory (search lower collate sortBy T q st) =
     (if trim q = [] \<or> q \<in> set (searchHistory st) then searchHistory st
      else q # take 4 (searchHistory st))"
  by (simp add: search_def performSearch_def searchTimeout_def Let_def)

lemma results_search_independent:
  "results (search lower collate sortBy T q st) = results (search lower collate sortBy T q st')"
  by (cases "trim q = []") (simp_all add: results_search_blank results_search)

lemma searchTimeout_results_independent:
  "results (searchTimeout lower collate T (Pending sortBy h q) st) =
   results (searchTimeout lower collate T (Pending sortBy h' q) st')"
  by (simp add: searchTimeout_def Let_def)

text \<open>The bound of five entries holds in every run, whatever the order of the events.\<close>

lemma step_history_length:
  assumes "length (searchHistory (fst s)) \<le> 5"
  shows "length (searchHistory (fst (step lower collate T s ev))) \<le> 5"
proof (cases s)
  case (Pair st timers)
  show ?thesis
  proof (cases ev)
    case (Call sortBy q)
    with Pair assms show ?thesis by (simp add: performSearch_def)
  next
    case Fire
    show ?thesis
    proof (cases timers)
      case Nil
      with Pair Fire assms show ?thesis by simp
    next
      case (Cons p ps)
      obtain sb h q where "p = Pending sb h q" by (cases p)
      with Pair Fire Cons assms show ?thesis by (simp add: searchTimeout_def Let_def)
    qed
  qed
qed

lemma run_history_length: "length (searchHistory (fst (run lower collate T evs))) \<le> 5"
  unfolding run_def
proof (induction evs rule: rev_induct)
  case Nil
  then show ?case by (simp add: initialState_def)
next
  case (snoc ev evs)
  then show ?case by (simp add: step_history_length)
qed

text \<open>A run without overlap is the searches carried through one after the other.\<close>

lemma step_Call_Fire:
  "step lower collate T (step lower collate T (st, []) (Call sortBy q)) Fire
     = (search lower collate sortBy T q st, [])"
  by (simp add: search_def performSearch_def)

lemma run_sequential:
  "run lower collate T (sequential qs) =
     (foldl (\<lambda>st (sortBy, q). search lower collate sortBy T q st) initialState qs, [])"
  unfolding run_def sequential_def
proof (induction qs rule: rev_induct)
  case Nil
  then show ?case by simp
next
  case (snoc x qs)
  obtain sortBy q where x: "x = (sortBy, q)" by (cases x)
  show ?case using snoc by (simp add: x step_Call_Fire del: step.simps)
qed

text \<open>
  Without overlap the history has no duplicates and lists queries in the order in which
  they were added, the newest first: it is a subsequence of the queries read backwards.
\<close>

lemma sequential_history:
  "distinct (searchHistory (fst (run lower collate T (sequential qs))))
   \<and> subseq (searchHistory (fst (run lower collate T (sequential qs)))) (rev (map snd qs))"
  unfolding run_sequential fst_conv
proof (induction qs rule: rev_induct)
  case Nil
  then show ?case by (simp add: initialState_def)
next
  case (snoc x qs)
  obtain sortBy q where x: "x = (sortBy, q)" by (cases x)
  let ?st = "foldl (\<lambda>st (sortBy, q). search lower collate sortBy T q st) initialState qs"
  from snoc have d: "distinct (searchHistory ?st)"
    and s: "subseq (searchHistory ?st) (rev (map snd qs))" by simp_all
  have rv: "rev (map snd (qs @ [x])) = q # rev (map snd qs)" by (simp add: x)
  have fl: "foldl (\<lambda>st (sortBy, q). search lower collate sortBy T q st) initialState (qs @ [x])
      = search lower collate sortBy T q ?st"
    by (simp add: x)
  show ?case
  proof (cases "trim q = [] \<or> q \<in> set (searchHistory ?st)")
    case True
    then have h: "searchHistory (search lower collate sortBy T q ?st) = searchHistory ?st"
      by (simp add: searchHistory_search)
    from s have "subseq (searchHistory ?st) (q # rev (map snd qs))" by (rule list_emb_Cons)
    with d show ?thesis unfolding fl rv h by simp
  next
    case False
    then have h: "searchHistory (search lower collate sortBy T q ?st) = q # take 4 (searchHistory ?st)"
      by (simp add: searchHistory_search)
    have "distinct (take 4 (searchHistory ?st))" using d by (rule distinct_take)
    moreover have "q \<notin> set (take 4 (searchHistory ?st))"
      using False by (auto dest: in_set_takeD)
    moreover have "prefix (take 4 (searchHistory ?st)) (searchHistory ?st)"
      by (rule take_is_prefix)
    then have "subseq (take 4 (searchHistory ?st)) (searchHistory ?st)"
      by (rule prefix_imp_subseq)
    with s have "subseq (take 4 (searchHistory ?st)) (rev (map snd qs))"
      by (rule subseq_order.order_trans [rotated])
    ultimately show ?thesis unfolding fl rv h by simp
  qed
qed

text \<open>
  C8. The test \<open>!searchHistory.includes(searchQuery)\<close> reads the history captured by the
  closure when \<open>performSearch\<close> was called, while the updater prepends to the history
  current when the callback runs. When the same query is searched twice before the first
  callback has run (the call of \<open>handleSearch\<close> on Enter is not guarded by \<open>isSearching\<close>,
  and the effect on \<open>sortBy\<close> calls \<open>performSearch\<close> again), both callbacks see the
  captured empty history and both prepend: the history holds the query twice.
\<close>

theorem C8_overlapping_searches_duplicate:
  "searchHistory (fst (run basicLower codeUnitKey scenarioTranscript
      [Call Relevance (str ''machine learning''), Call Relevance (str ''machine learning''), Fire, Fire]))
   = [(str ''machine learning''), (str ''machine learning'')]"
  by (simp add: run_def performSearch_def searchTimeout_def scenario_trim initialState_def Let_def)

section \<open>C9: a transcript without segments\<close>

text \<open>
  C9 as stated: the repository has no step that builds an index and no
  \<open>EmptyTranscriptError\<close>; \<open>performSearch\<close> walks over \<open>transcription.segments\<close> itself. On
  a transcript with zero segments a search is carried out like any other: it ends with an
  empty result sequence, \<open>isSearching\<close> reset, and the query recorded in the history.
\<close>

theorem C9_search_runs_counterexample:
  "search basicLower codeUnitKey Relevance emptyTranscript (str ''machine learning'') initialState
     = \<lparr>results = [], isSearching = False, searchHistory = [(str ''machine learning'')]\<rparr>"
  by (simp add: search_def performSearch_def searchTimeout_def scenario_trim initialState_def
        emptyTranscript_def searchResults_def arraySort_def)

text \<open>
  C9, as amended. When the transcript has zero segments nothing fails: a search is still
  carried out and returns an empty result sequence for every query, in either sort mode; for
  a query that is not blank the callback runs to its end, resets \<open>isSearching\<close> and records
  the query in the history as usual.
\<close>

theorem C9_empty_transcript:
  assumes "segments T = []"
  shows "results (search lower collate sortBy T q st) = []
         \<and> (trim q \<noteq> [] \<longrightarrow>
              search lower collate sortBy T q st =
                st\<lparr>results := [], isSearching := False,
                   searchHistory :=
                     (if q \<notin> set (searchHistory st) then q # take 4 (searchHistory st)
                      else searchHistory st)\<rparr>)"
proof -
  from assms have "searchResults lower q T = []" by (simp add: searchResults_def)
  then have "arraySort (compareResults collate sortBy) (searchResults lower q T) = []"
    by (simp add: arraySort_def)
  then show ?thesis
    by (simp add: search_def performSearch_def searchTimeout_def Let_def)
qed

theorem C9_empty_transcript_witness:
  "segments emptyTranscript = []
   \<and> trim (str ''machine learning'') \<noteq> []
   \<and> results (search basicLower codeUnitKey Time emptyTranscript (str ''machine learning'') initialState) = []
   \<and> searchHistory (search basicLower codeUnitKey Time emptyTranscript (str ''machine learning'') initialState)
       = [(str ''machine learning'')]"
proof -
  have e: "segments emptyTranscript = []" by (simp add: emptyTranscript_def)
  from C9_empty_transcript [OF e, of basicLower codeUnitKey Time "str ''machine learning''" initialState]
    e scenario_trim
  show ?thesis by (simp add: initialState_def)
qed

section \<open>C10: edges of the concept map\<close>

lemma renderEdge_cases:
  "renderEdge conceptMap nodePositions highlightedNodes showLabels edge = Inr None
   \<or> (\<exists>el. renderEdge conceptMap nodePositions highlightedNodes showLabels edge = Inr (Some el)
         \<and> find (\<lambda>n. node_id n = edge_from edge) (nodes conceptMap) \<noteq> None
         \<and> find (\<lambda>n. node_id n = edge_to edge) (nodes conceptMap) \<noteq> None)"
  by (auto simp: renderEdge_def Let_def prop_x_def prop_y_def)

lemma find_node_iff:
  "find (\<lambda>n. node_id n = i) ns \<noteq> None \<longleftrightarrow> i \<in> node_id ` set ns"
  by (auto simp: find_None_iff)

lemma renderEdge_dangling:
  assumes "edge_from edge \<notin> node_id ` set (nodes conceptMap)
           \<or> edge_to edge \<notin> node_id ` set (nodes conceptMap)"
  shows "renderEdge conceptMap nodePositions highlightedNodes showLabels edge = Inr None"
proof -
  from assms have "find (\<lambda>n. node_id n = edge_from edge) (nodes conceptMap) = None
      \<or> find (\<lambda>n. node_id n = edge_to edge) (nodes conceptMap) = None"
    using find_node_iff by blast
  then show ?thesis by (auto simp: renderEdge_def Let_def)
qed

lemma mapE_total:
  assumes "\<And>x. x \<in> set xs \<Longrightarrow> \<exists>y. f x = Inr y"
  shows "\<exists>ys. mapE f xs = Inr ys \<and> length ys = length xs
           \<and> (\<forall>i < length xs. f (xs ! i) = Inr (ys ! i))"
  using assms
proof (induction xs)
  case Nil
  then show ?case by simp
next
  case (Cons x xs)
  from Cons.prems obtain y where y: "f x = Inr y" by auto
  from Cons obtain ys where ys: "mapE f xs = Inr ys" "length ys = length xs"
      "\<forall>i < length xs. f (xs ! i) = Inr (ys ! i)"
    by auto
  have "\<forall>i < length (x # xs). f ((x # xs) ! i) = Inr ((y # ys) ! i)"
    using y ys(3) by (auto simp: nth_Cons split: nat.splits)
  with y ys show ?case by simp
qed

text \<open>
  C10. For every concept map, also one whose edges name nodes that do not exist, rendering
  the edges does not fail: every edge callback returns, a \<open>TypeError\<close> from reading \<open>.x\<close> or
  \<open>.y\<close> of a missing position cannot arise. An edge whose \<open>from\<close> or \<open>to\<close> is not the id of
  a node of the map renders as nothing, and every edge that is drawn has both endpoints
  among the nodes of the map.
\<close>

theorem C10_edges_never_fail:
  "\<exists>els. renderEdges conceptMap highlightedNodes showLabels = Inr els
     \<and> length els = length (edges conceptMap)
     \<and> (\<forall>i < length (edges conceptMap).
          ((edge_from (edges conceptMap ! i) \<notin> node_id ` set (nodes conceptMap)
            \<or> edge_to (edges conceptMap ! i) \<notin> node_id ` set (nodes conceptMap))
           \<longrightarrow> els ! i = None)
          \<and> (els ! i \<noteq> None \<longrightarrow>
               edge_from (edges conceptMap ! i) \<in> node_id ` set (nodes conceptMap)
               \<and> edge_to (edges conceptMap ! i) \<in> node_id ` set (nodes conceptMap)))"
proof -
  let ?f = "renderEdge conceptMap (calculateLayout conceptMap) highlightedNodes showLabels"
  have "\<exists>y. ?f e = Inr y" for e
    using renderEdge_cases [of conceptMap "calculateLayout conceptMap" highlightedNodes showLabels e]
    by auto
  then obtain els where els: "mapE ?f (edges conceptMap) = Inr els"
      "length els = length (edges conceptMap)"
      "\<forall>i < length (edges conceptMap). ?f (edges conceptMap ! i) = Inr (els ! i)"
    using mapE_total [of "edges conceptMap" ?f] by blast
  have dangling: "els ! i = None"
    if "i < length (edges conceptMap)"
      and "edge_from (edges conceptMap ! i) \<notin> node_id ` set (nodes conceptMap)
           \<or> edge_to (edges conceptMap ! i) \<notin> node_id ` set (nodes conceptMap)" for i
  proof -
    from that(2) have "?f (edges conceptMap ! i) = Inr None" by (rule renderEdge_dangling)
    with els(3) that(1) show ?thesis by simp
  qed
  have "\<forall>i < length (edges conceptMap).
          ((edge_from (edges conceptMap ! i) \<notin> node_id ` set (nodes conceptMap)
            \<or> edge_to (edges conceptMap ! i) \<notin> node_id ` set (nodes conceptMap))
           \<longrightarrow> els ! i = None)
          \<and> (els ! i \<noteq> None \<longrightarrow>
               edge_from (edges conceptMap ! i) \<in> node_id ` set (nodes conceptMap)
               \<and> edge_to (edges conceptMap ! i) \<in> node_id ` set (nodes conceptMap))"
  proof (intro allI impI conjI)
    fix i
    assume "i < length (edges conceptMap)"
      and "edge_from (edges conceptMap ! i) \<notin> node_id ` set (nodes conceptMap)
           \<or> edge_to (edges conceptMap ! i) \<notin> node_id ` set (nodes conceptMap)"
    then show "els ! i = None" by (rule dangling)
  next
    fix i
    assume i: "i < length (edges conceptMap)" and some: "els ! i \<noteq> None"
    show "edge_from (edges conceptMap ! i) \<in> node_id ` set (nodes conceptMap)"
    proof (rule ccontr)
      assume a: "edge_from (edges conceptMap ! i) \<notin> node_id ` set (nodes conceptMap)"
      have "els ! i = None" using i by (rule dangling) (rule disjI1 [OF a])
      with some show False by simp
    qed
    show "edge_to (edges conceptMap ! i) \<in> node_id ` set (nodes conceptMap)"
    proof (rule ccontr)
      assume a: "edge_to (edges conceptMap ! i) \<notin> node_id ` set (nodes conceptMap)"
      have "els ! i = None" using i by (rule dangling) (rule disjI2 [OF a])
      with some show False by simp
    qed
  qed
  with els(1,2) show ?thesis unfolding renderEdges_def by (intro exI [of _ els] conjI)
qed

theorem C10_edges_never_fail_witness:
  "edge_to (edges danglingMap ! 1) \<notin> node_id ` set (nodes danglingMap)
   \<and> length (edges danglingMap) = 2
   \<and> renderEdges danglingMap {} True =
       Inr [Some \<lparr>line_x1 = 400, line_y1 = 300, line_x2 = 600, line_y2 = 300,
                  strokeOpacity = 0.9, strokeWidth = 2.7, opacity = 0.6,
                  labelText = Some ''includes''\<rparr>,
            None]"
proof -
  have d: "edge_to (edges danglingMap ! 1) \<notin> node_id ` set (nodes danglingMap)"
    by (simp add: danglingMap_def)
  have l: "length (edges danglingMap) = 2" by (simp add: danglingMap_def)
  have r: "renderEdges danglingMap {} True =
       Inr [Some \<lparr>line_x1 = 400, line_y1 = 300, line_x2 = 600, line_y2 = 300,
                  strokeOpacity = 0.9, strokeWidth = 2.7, opacity = 0.6,
                  labelText = Some ''includes''\<rparr>,
            None]"
    by (simp add: renderEdges_def renderEdge_def calculateLayout_def placeOnCircle_def
          danglingMap_def prop_x_def prop_y_def Let_def)
  from C10_edges_never_fail [of danglingMap "{}" True] d l r show ?thesis by blast
qed

end
